theory Spec2Isabelle
  imports Main
begin

section \<open>Data model (types.ts)\<close>

text \<open>
  Strings are lists of characters; text outside the ASCII range is written as the bytes of
  its UTF-8 encoding. \<open>String.prototype.toLowerCase\<close> and \<open>String.prototype.trim\<close>
  are builtins of the JavaScript runtime, with Unicode tables that are not part of the
  repository: the model takes them as a parameter, the record \<open>runtime\<close> below.

  A JavaScript number is either \<open>NaN\<close> or an integer, held exactly: the rounding of
  IEEE doubles beyond \<open>2 ^ 53\<close> is outside the model, and so are the fractions, which no
  path of the program produces (\<open>qty\<close> is \<open>1\<close> or a result of \<open>parseInt\<close>).
\<close>

datatype jsnum = NaN | Num int

record store =
  code :: string
  name :: string

record product =
  code :: string
  desc :: string

record request_item = product +
  id' :: string
  qty :: jsnum
  reason :: string

datatype status_type = success | error | info | idle

record status =
  type :: status_type
  message :: string

section \<open>JavaScript primitives used by the component\<close>

subsection \<open>Number to string\<close>

fun digit_char :: "nat \<Rightarrow> char" where
  "digit_char n = char_of (48 + n mod 10)"

fun dec :: "nat \<Rightarrow> string" where
  "dec n = (if n < 10 then [digit_char n] else dec (n div 10) @ [digit_char n])"

declare dec.simps [simp del]

text \<open>
  \<open>String(x)\<close> and the conversion inside a template literal, on the numbers of the model:
  plain decimal digits, with a leading hyphen for a negative number. The exponent notation
  that JavaScript uses from \<open>10 ^ 21\<close> on is outside the model.
\<close>

fun String_num :: "jsnum \<Rightarrow> string" where
  "String_num NaN = ''NaN''"
| "String_num (Num i) = (if i < 0 then CHR ''-'' # dec (nat (- i)) else dec (nat i))"

subsection \<open>parseInt\<close>

definition isWhiteSpace :: "char \<Rightarrow> bool" where
  "isWhiteSpace c \<longleftrightarrow>
     c = CHR 0x09 \<or> c = CHR 0x0A \<or> c = CHR 0x0B \<or> c = CHR 0x0C \<or> c = CHR 0x0D \<or> c = CHR 0x20"

text \<open>The value of a character as a digit of a radix up to 36, when it is one.\<close>

definition digitValue :: "char \<Rightarrow> nat option" where
  "digitValue c =
     (let n = (of_char c :: nat) in
      if 48 \<le> n \<and> n \<le> 57 then Some (n - 48)
      else if 97 \<le> n \<and> n \<le> 122 then Some (n - 87)
      else if 65 \<le> n \<and> n \<le> 90 then Some (n - 55)
      else None)"

definition radixDigit :: "nat \<Rightarrow> char \<Rightarrow> nat option" where
  "radixDigit R c = (case digitValue c of None \<Rightarrow> None | Some d \<Rightarrow> if d < R then Some d else None)"

definition isRadixDigit :: "nat \<Rightarrow> char \<Rightarrow> bool" where
  "isRadixDigit R c \<longleftrightarrow> radixDigit R c \<noteq> None"

definition digitsValue :: "nat \<Rightarrow> string \<Rightarrow> nat" where
  "digitsValue R Z = foldl (\<lambda>a c. a * R + (case radixDigit R c of None \<Rightarrow> 0 | Some d \<Rightarrow> d)) 0 Z"

text \<open>
  \<open>parseInt(string)\<close> with the radix left undefined, step by step as ECMAScript gives it:
  leading white space is dropped, one sign is read, the prefix \<open>0x\<close> or \<open>0X\<close> selects radix
  16 (radix 10 otherwise), the longest run of digits of the radix is the numeral, and an
  empty run gives \<open>NaN\<close>. Both zeros are \<open>Num 0\<close>. The white space is the ASCII one:
  the only caller passes the value of an input of type number, which is ASCII text.
\<close>

definition stripSign :: "string \<Rightarrow> int \<times> string" where
  "stripSign S =
     (case S of
        [] \<Rightarrow> (1, [])
      | c # r \<Rightarrow> if c = CHR ''-'' then (- 1, r) else if c = CHR ''+'' then (1, r) else (1, S))"

definition stripPrefix :: "string \<Rightarrow> nat \<times> string" where
  "stripPrefix S =
     (case S of
        a # b # r \<Rightarrow> if a = CHR ''0'' \<and> (b = CHR ''x'' \<or> b = CHR ''X'') then (16, r) else (10, S)
      | _ \<Rightarrow> (10, S))"

definition parseInt :: "string \<Rightarrow> jsnum" where
  "parseInt inputString =
     (let (sign, S) = stripSign (dropWhile isWhiteSpace inputString);
          (R, S') = stripPrefix S;
          Z = takeWhile (isRadixDigit R) S'
      in if Z = [] then NaN else Num (sign * int (digitsValue R Z)))"

text \<open>Truthiness of a number, and \<open>a || b\<close> on numbers.\<close>

fun truthy :: "jsnum \<Rightarrow> bool" where
  "truthy NaN = False"
| "truthy (Num i) = (i \<noteq> 0)"

definition or_else :: "jsnum \<Rightarrow> jsnum \<Rightarrow> jsnum" where
  "or_else a b = (if truthy a then a else b)"

subsection \<open>toLowerCase, trim, includes\<close>

text \<open>The small letter of an ASCII capital letter; any other character is left as it is.\<close>

definition toLowerChar :: "char \<Rightarrow> char" where
  "toLowerChar c =
     (let n = (of_char c :: nat) in if 65 \<le> n \<and> n \<le> 90 then char_of (n + 32) else c)"

text \<open>
  The two string builtins that the search effect calls, as the runtime provides them.
  Every definition and theorem below that depends on them holds them as the parameter \<open>rt\<close>.
\<close>

record runtime =
  toLowerCase :: "string \<Rightarrow> string"
  trim :: "string \<Rightarrow> string"

text \<open>
  On a string of ASCII characters \<open>toLowerCase\<close> replaces each capital letter by its small
  letter and leaves every other character, and \<open>trim\<close> removes the ASCII white space at
  both ends. \<open>folds_ascii\<close> says that much of a runtime, and nothing about other strings;
  \<open>ascii_runtime\<close> is a runtime that does this on every string, used to run the scenario
  of the specification, whose strings are all ASCII.
\<close>

definition ascii :: "string \<Rightarrow> bool" where
  "ascii s = list_all (\<lambda>c. (of_char c :: nat) < 128) s"

definition folds_ascii :: "runtime \<Rightarrow> bool" where
  "folds_ascii rt \<longleftrightarrow> (\<forall>s. ascii s \<longrightarrow> toLowerCase rt s = map toLowerChar s)"

definition ascii_toLowerCase :: "string \<Rightarrow> string" where
  "ascii_toLowerCase s = map toLowerChar s"

definition ascii_trim :: "string \<Rightarrow> string" where
  "ascii_trim s = rev (dropWhile isWhiteSpace (rev (dropWhile isWhiteSpace s)))"

definition ascii_runtime :: runtime where
  "ascii_runtime = \<lparr>toLowerCase = ascii_toLowerCase, trim = ascii_trim\<rparr>"

fun startsWith :: "string \<Rightarrow> string \<Rightarrow> bool" where
  "startsWith s [] = True"
| "startsWith [] (c # q) = False"
| "startsWith (d # s) (c # q) = (d = c \<and> startsWith s q)"

text \<open>\<open>s.includes(q)\<close>: \<open>q\<close> occurs in \<open>s\<close> as a run of consecutive characters.\<close>

fun includes' :: "string \<Rightarrow> string \<Rightarrow> bool" where
  "includes' [] q = (q = [])"
| "includes' (d # s) q = (startsWith (d # s) q \<or> includes' s q)"

section \<open>The component (App)\<close>

subsection \<open>State\<close>

text \<open>
  The body of the POST request: the payload object that \<open>handleSubmit\<close> builds and hands
  to \<open>JSON.stringify\<close>. The model keeps the object; its JSON text is not modelled.
\<close>

record payload_item =
  procode :: string
  prodesc :: string
  qty_str :: string
  reason_str :: string

record payload =
  store_token :: string
  items :: "payload_item list"

text \<open>A pending \<open>setTimeout\<close>: its delay in milliseconds and the status its callback sets.\<close>

record timer =
  delay :: nat
  sets :: status

text \<open>
  The nine \<open>useState\<close> cells of the component, and its effects on the world: the timers it
  has set, every POST it has issued (\<open>posted\<close>, oldest first), and the POSTs not yet
  settled (\<open>in_flight\<close>).
\<close>

record app =
  stores :: "store list"
  products :: "product list"
  requestItems :: "request_item list"
  selectedStore :: string
  searchTerm :: string
  filteredProducts :: "product list"
  status :: status
  isLoading :: bool
  isSubmitting :: bool
  timers :: "timer list"
  posted :: "payload list"
  in_flight :: "payload list"

definition mk_status :: "status_type \<Rightarrow> string \<Rightarrow> status" where
  "mk_status t m = \<lparr>type = t, message = m\<rparr>"

definition idle_status :: status where
  "idle_status = mk_status idle []"

definition setTimeout :: "status \<Rightarrow> nat \<Rightarrow> app \<Rightarrow> app" where
  "setTimeout st ms s = s\<lparr>timers := timers s @ [\<lparr>delay = ms, sets = st\<rparr>]\<rparr>"

subsection \<open>Search (the effect on searchTerm and products)\<close>

definition matches :: "runtime \<Rightarrow> string \<Rightarrow> 'a product_scheme \<Rightarrow> bool" where
  "matches rt term p \<longleftrightarrow>
     includes' (toLowerCase rt (code p)) (toLowerCase rt term) \<or>
     includes' (toLowerCase rt (desc p)) (toLowerCase rt term)"

definition search :: "runtime \<Rightarrow> string \<Rightarrow> product list \<Rightarrow> product list" where
  "search rt term ps =
     (if trim rt term = [] then [] else take 10 (filter (matches rt term) ps))"

definition filter_effect :: "runtime \<Rightarrow> app \<Rightarrow> app" where
  "filter_effect rt s = s\<lparr>filteredProducts := search rt (searchTerm s) (products s)\<rparr>"

subsection \<open>handleAddItem\<close>

text \<open>The identifier of a new line item; \<open>now\<close> is the value \<open>Date.now()\<close> returns.\<close>

definition new_id :: "'a product_scheme \<Rightarrow> nat \<Rightarrow> string" where
  "new_id p now = code p @ CHR ''-'' # dec now"

definition newItem :: "product \<Rightarrow> nat \<Rightarrow> request_item" where
  "newItem p now =
     \<lparr>code = code p, desc = desc p, id' = new_id p now, qty = Num 1, reason = []\<rparr>"

definition has_code :: "string \<Rightarrow> request_item list \<Rightarrow> bool" where
  "has_code c its = list_ex (\<lambda>item. code item = c) its"

definition handleAddItem :: "product \<Rightarrow> nat \<Rightarrow> app \<Rightarrow> app" where
  "handleAddItem p now s =
     (if has_code (code p) (requestItems s)
      then setTimeout idle_status 3000 (s\<lparr>status := mk_status info ''Produk sudah ada di daftar.''\<rparr>)
      else s\<lparr>requestItems := requestItems s @ [newItem p now],
             searchTerm := [],
             filteredProducts := []\<rparr>)"

subsection \<open>handleItemChange and handleDeleteItem\<close>

text \<open>The two calls of \<open>handleItemChange\<close>: field \<open>qty\<close> with a number, field \<open>reason\<close> with a string.\<close>

datatype field_value = Qty jsnum | Reason string

fun set_field :: "field_value \<Rightarrow> request_item \<Rightarrow> request_item" where
  "set_field (Qty n) item = item\<lparr>qty := n\<rparr>"
| "set_field (Reason r) item = item\<lparr>reason := r\<rparr>"

definition handleItemChange :: "string \<Rightarrow> field_value \<Rightarrow> app \<Rightarrow> app" where
  "handleItemChange i fv s =
     s\<lparr>requestItems := map (\<lambda>item. if id' item = i then set_field fv item else item) (requestItems s)\<rparr>"

definition handleDeleteItem :: "string \<Rightarrow> app \<Rightarrow> app" where
  "handleDeleteItem i s = s\<lparr>requestItems := filter (\<lambda>item. id' item \<noteq> i) (requestItems s)\<rparr>"

text \<open>The change handler of the qty input of the row of item \<open>i\<close>, on the text \<open>v\<close> of the input.\<close>

definition qty_onChange :: "string \<Rightarrow> string \<Rightarrow> app \<Rightarrow> app" where
  "qty_onChange i v s = handleItemChange i (Qty (or_else (parseInt v) (Num 1))) s"

definition reason_onChange :: "string \<Rightarrow> string \<Rightarrow> app \<Rightarrow> app" where
  "reason_onChange i v s = handleItemChange i (Reason v) s"

subsection \<open>handleSubmit\<close>

text \<open>
  The awaited \<open>fetch\<close> either resolves (with an opaque response) or throws a
  transport-level exception.
\<close>

datatype fetch_outcome = Resolved | Threw

definition payload_of :: "app \<Rightarrow> payload" where
  "payload_of s =
     \<lparr>store_token = selectedStore s,
      items = map (\<lambda>item. \<lparr>procode = code item, prodesc = desc item,
                             qty_str = String_num (qty item), reason_str = reason item\<rparr>)
                  (requestItems s)\<rparr>"

definition msg_no_store :: string where
  "msg_no_store = ''Pilih store terlebih dahulu!''"

definition msg_no_items :: string where
  "msg_no_items = ''Tambahkan minimal satu item!''"

definition msg_sending :: string where
  "msg_sending = ''Mengirim data...''"

definition msg_success :: string where
  "msg_success = [CHR 0xE2, CHR 0x9C, CHR 0x85] @
     '' Data berhasil dikirim! Mohon periksa Google Sheet untuk konfirmasi.''"

definition msg_network :: string where
  "msg_network = [CHR 0xE2, CHR 0x9D, CHR 0x8C] @
     '' Gagal submit: Terjadi kesalahan jaringan. Pastikan Anda terhubung ke internet.''"

text \<open>
  The part of \<open>handleSubmit\<close> that runs up to the \<open>await\<close>, once validation has passed:
  the flag, the status, and the call of \<open>fetch\<close>.
\<close>

definition submit_send :: "app \<Rightarrow> app" where
  "submit_send s =
     s\<lparr>isSubmitting := True,
       status := mk_status info msg_sending,
       posted := posted s @ [payload_of s],
       in_flight := in_flight s @ [payload_of s]\<rparr>"

text \<open>
  The part that runs when the awaited \<open>fetch\<close> settles: the rest of the \<open>try\<close> block or the
  \<open>catch\<close> block, then \<open>finally\<close>. The settled request is the oldest one in flight.
\<close>

definition submit_settle :: "fetch_outcome \<Rightarrow> app \<Rightarrow> app" where
  "submit_settle outcome s =
     (let s1 = s\<lparr>in_flight := tl (in_flight s)\<rparr>;
          s2 = (case outcome of
                  Resolved \<Rightarrow>
                    setTimeout idle_status 5000
                      (s1\<lparr>status := mk_status success msg_success,
                          requestItems := [],
                          selectedStore := []\<rparr>)
                | Threw \<Rightarrow> s1\<lparr>status := mk_status error msg_network\<rparr>)
      in s2\<lparr>isSubmitting := False\<rparr>)"

text \<open>The synchronous part of \<open>handleSubmit\<close>: the two checks, then the send.\<close>

definition submit_begin :: "app \<Rightarrow> app" where
  "submit_begin s =
     (if selectedStore s = [] then s\<lparr>status := mk_status error msg_no_store\<rparr>
      else if length (requestItems s) = 0 then s\<lparr>status := mk_status error msg_no_items\<rparr>
      else submit_send s)"

definition validation_passes :: "app \<Rightarrow> bool" where
  "validation_passes s \<longleftrightarrow> selectedStore s \<noteq> [] \<and> length (requestItems s) \<noteq> 0"

text \<open>\<open>handleSubmit\<close> run to its end, with the outcome of the \<open>fetch\<close> it awaits, if it issues one.\<close>

definition handleSubmit :: "fetch_outcome \<Rightarrow> app \<Rightarrow> app" where
  "handleSubmit outcome s =
     (if validation_passes s then submit_settle outcome (submit_begin s) else submit_begin s)"

subsection \<open>The component as a transition system\<close>

text \<open>
  The state before the first render's effects, and the synchronous start of
  \<open>fetchMasterData\<close>, which the mount effect runs once.
\<close>

definition initial :: app where
  "initial =
     \<lparr>stores = [], products = [], requestItems = [], selectedStore = [], searchTerm = [],
      filteredProducts = [], status = idle_status, isLoading = True, isSubmitting = False,
      timers = [], posted = [], in_flight = []\<rparr>"

definition mounted :: app where
  "mounted = initial\<lparr>isLoading := True, status := mk_status info ''Loading master data...''\<rparr>"

text \<open>
  What can happen to the mounted component: the master-data fetch settles, the user acts on
  a control, an awaited POST settles, a timer fires. \<open>ClickProduct p now\<close> is a click on the
  suggestion button of \<open>p\<close> at clock reading \<open>now\<close>.
\<close>

datatype event =
    MasterDataLoaded "store list" "product list"
  | MasterDataFailed string
  | SelectStore string
  | TypeSearch string
  | ClickOutside
  | ClickProduct product nat
  | ChangeQty string string
  | ChangeReason string string
  | ClickDelete string
  | ClickSubmit
  | FetchSettled fetch_outcome
  | TimerFired nat

definition store_option :: "store \<Rightarrow> string" where
  "store_option st = ''['' @ store.code st @ ''] '' @ name st"

definition submit_disabled :: "app \<Rightarrow> bool" where
  "submit_disabled s \<longleftrightarrow> isSubmitting s \<or> isLoading s"

definition search_disabled :: "app \<Rightarrow> bool" where
  "search_disabled s \<longleftrightarrow> isLoading s \<or> length (products s) = 0"

text \<open>
  One event, dispatched as the rendered markup allows: a disabled control and a button that
  is not rendered receive nothing, and the event leaves the state as it is.
\<close>

fun dispatch :: "event \<Rightarrow> app \<Rightarrow> app" where
  "dispatch (MasterDataLoaded ss ps) s =
     (if isLoading s
      then s\<lparr>stores := ss, products := ps, status := idle_status, isLoading := False\<rparr>
      else s)"
| "dispatch (MasterDataFailed m) s =
     (if isLoading s
      then s\<lparr>status := mk_status error (''Gagal load master data: '' @ m), isLoading := False\<rparr>
      else s)"
| "dispatch (SelectStore v) s =
     (if \<not> isLoading s \<and> List.member ([] # map store_option (stores s)) v
      then s\<lparr>selectedStore := v\<rparr> else s)"
| "dispatch (TypeSearch v) s = (if search_disabled s then s else s\<lparr>searchTerm := v\<rparr>)"
| "dispatch ClickOutside s = s\<lparr>filteredProducts := []\<rparr>"
| "dispatch (ClickProduct p now) s =
     (if List.member (filteredProducts s) p then handleAddItem p now s else s)"
| "dispatch (ChangeQty i v) s = qty_onChange i v s"
| "dispatch (ChangeReason i v) s = reason_onChange i v s"
| "dispatch (ClickDelete i) s = handleDeleteItem i s"
| "dispatch ClickSubmit s = (if submit_disabled s then s else submit_begin s)"
| "dispatch (FetchSettled outcome) s = (if in_flight s = [] then s else submit_settle outcome s)"
| "dispatch (TimerFired k) s =
     (if k < length (timers s)
      then s\<lparr>status := sets (timers s ! k), timers := take k (timers s) @ drop (Suc k) (timers s)\<rparr>
      else s)"

text \<open>After an event, the search effect runs again when one of its dependencies has changed.\<close>

definition step :: "runtime \<Rightarrow> event \<Rightarrow> app \<Rightarrow> app" where
  "step rt e s =
     (let s' = dispatch e s
      in if searchTerm s' \<noteq> searchTerm s \<or> products s' \<noteq> products s then filter_effect rt s' else s')"

fun run :: "runtime \<Rightarrow> event list \<Rightarrow> app \<Rightarrow> app" where
  "run rt [] s = s"
| "run rt (e # es) s = run rt es (step rt e s)"

subsection \<open>Sequences of add and remove, and the identifiers they generate\<close>

datatype list_op = Add product nat | Remove string

fun apply_op :: "list_op \<Rightarrow> app \<Rightarrow> app" where
  "apply_op (Add p now) s = handleAddItem p now s"
| "apply_op (Remove i) s = handleDeleteItem i s"

text \<open>The identifiers that the adds of a sequence generate, in order; a rejected add generates none.\<close>

fun generated :: "list_op list \<Rightarrow> app \<Rightarrow> string list" where
  "generated [] s = []"
| "generated (Add p now # ops) s =
     (if has_code (code p) (requestItems s) then [] else [new_id p now])
     @ generated ops (apply_op (Add p now) s)"
| "generated (Remove i # ops) s = generated ops (apply_op (Remove i) s)"

text \<open>The product code and clock reading of each add of a sequence.\<close>

fun add_keys :: "list_op list \<Rightarrow> (string \<times> nat) list" where
  "add_keys [] = []"
| "add_keys (Add p now # ops) = (code p, now) # add_keys ops"
| "add_keys (Remove i # ops) = add_keys ops"

subsection \<open>The scenario of the specification\<close>

definition S1 :: store where
  "S1 = \<lparr>store.code = ''S1'', name = ''Store One''\<rparr>"

definition P1 :: product where
  "P1 = \<lparr>code = ''P1'', desc = ''Widget''\<rparr>"

definition scenario :: "event list" where
  "scenario =
     [MasterDataLoaded [S1] [P1], SelectStore ''[S1] Store One'', TypeSearch ''wid'',
      ClickProduct P1 1000]"

definition ready :: app where
  "ready = run ascii_runtime scenario mounted"

definition searching_again :: app where
  "searching_again = run ascii_runtime (scenario @ [TypeSearch ''wid'']) mounted"

definition store_chosen :: app where
  "store_chosen = run ascii_runtime [MasterDataLoaded [S1] [P1], SelectStore ''[S1] Store One''] mounted"

definition sending :: app where
  "sending = run ascii_runtime (scenario @ [ClickSubmit]) mounted"

section \<open>The words of the specification\<close>

text \<open>
  Two characters are the same letter up to case: they are equal, or one is an ASCII capital
  and the other the small letter 32 places after it.
\<close>

definition same_letter :: "char \<Rightarrow> char \<Rightarrow> bool" where
  "same_letter a b \<longleftrightarrow>
     a = b \<or>
     (let m = (of_char a :: nat); n = (of_char b :: nat)
      in (65 \<le> m \<and> m \<le> 90 \<and> n = m + 32) \<or> (65 \<le> n \<and> n \<le> 90 \<and> m = n + 32))"

fun ci_startsWith :: "string \<Rightarrow> string \<Rightarrow> bool" where
  "ci_startsWith s [] = True"
| "ci_startsWith [] (c # q) = False"
| "ci_startsWith (d # s) (c # q) = (same_letter d c \<and> ci_startsWith s q)"

text \<open>\<open>s\<close> contains \<open>q\<close> as a case-insensitive substring.\<close>

fun ci_contains :: "string \<Rightarrow> string \<Rightarrow> bool" where
  "ci_contains [] q = (q = [])"
| "ci_contains (d # s) q = (ci_startsWith (d # s) q \<or> ci_contains s q)"

text \<open>The submission guard: the flag is set exactly while a POST is in flight, and at most one is.\<close>

definition guard_inv :: "app \<Rightarrow> bool" where
  "guard_inv s \<longleftrightarrow> (isSubmitting s \<longleftrightarrow> in_flight s \<noteq> []) \<and> length (in_flight s) \<le> 1"

text \<open>The identifier that a product code and a clock reading determine.\<close>

definition id_of_key :: "string \<times> nat \<Rightarrow> string" where
  "id_of_key k = fst k @ CHR ''-'' # dec (snd k)"


subsection \<open>Lower case beyond ASCII: the final sigma\<close>

text \<open>
  ECMAScript lower-cases by the mappings of the Unicode Character Database, those of
  SpecialCasing.txt included: the capital sigma (U+03A3) becomes the final sigma (U+03C2)
  where a cased letter precedes it and none follows, and the small sigma (U+03C3)
  elsewhere. So \<open>toLowerCase\<close> takes the letter A followed by U+03A3 to the letter a
  followed by U+03C2, and U+03A3 alone to U+03C3. \<open>sigma_runtime\<close> is a runtime with
  these two values of \<open>toLowerCase\<close>; on every other string it folds the ASCII letters,
  which is all that the example below reads of it. The strings are the UTF-8 bytes of the
  letters.
\<close>

definition capital_sigma :: string where
  "capital_sigma = [CHR 0xCE, CHR 0xA3]"

definition final_sigma :: string where
  "final_sigma = [CHR 0xCF, CHR 0x82]"

definition small_sigma :: string where
  "small_sigma = [CHR 0xCF, CHR 0x83]"

definition sigma_toLowerCase :: "string \<Rightarrow> string" where
  "sigma_toLowerCase s =
     (if s = CHR ''A'' # capital_sigma then CHR ''a'' # final_sigma
      else if s = capital_sigma then small_sigma
      else map toLowerChar s)"

definition sigma_runtime :: runtime where
  "sigma_runtime = \<lparr>toLowerCase = sigma_toLowerCase, trim = ascii_trim\<rparr>"


section \<open>The scenario states\<close>

lemma ready_selected: "selectedStore ready \<noteq> []"
  unfolding ready_def by code_simp

lemma ready_items: "requestItems ready \<noteq> []"
  unfolding ready_def by code_simp

lemma mounted_no_store: "selectedStore mounted = []"
  by (simp add: mounted_def initial_def)

lemma store_chosen_selected: "selectedStore store_chosen \<noteq> []"
  unfolding store_chosen_def by code_simp

lemma store_chosen_no_items: "requestItems store_chosen = []"
  unfolding store_chosen_def by code_simp

lemma sending_isSubmitting: "isSubmitting sending"
  unfolding sending_def by code_simp

section \<open>The qty input\<close>

text \<open>
  What the change handler hands to \<open>handleItemChange\<close> is never \<open>NaN\<close> and never zero,
  and it is \<open>1\<close> when \<open>parseInt\<close> finds no numeral.
\<close>

lemma or_else_parseInt_not_falsy:
  "or_else (parseInt v) (Num 1) \<noteq> NaN \<and> or_else (parseInt v) (Num 1) \<noteq> Num 0"
  by (cases "parseInt v") (simp_all add: or_else_def)

lemma or_else_parseInt_NaN: "parseInt v = NaN \<Longrightarrow> or_else (parseInt v) (Num 1) = Num 1"
  by (simp add: or_else_def)

text \<open>
  C1. The qty-update path is to set the item's qty to 1 on invalid input and never to store
  a negative value. On the text \<open>-5\<close> the path stores \<open>-5\<close>: \<open>parseInt\<close> reads the sign,
  the result is truthy, and \<open>|| 1\<close> lets it through.
\<close>

theorem qty_onChange_stores_negative:
  "requestItems (qty_onChange ''P1-1000'' ''-5'' (run ascii_runtime scenario mounted))
     = [(newItem P1 1000)\<lparr>qty := Num (- 5)\<rparr>]"
  by code_simp

section \<open>Submission\<close>

text \<open>
  C2. From a state with a store selected and a non-empty request list, when the fetch
  throws, \<open>handleSubmit\<close> ends with the network error status, the request list and the
  selected store as they were, and \<open>isSubmitting\<close> cleared.
\<close>

theorem submit_transport_error:
  assumes "selectedStore s \<noteq> []" and "requestItems s \<noteq> []"
  shows "status (handleSubmit Threw s) = mk_status error msg_network
       \<and> requestItems (handleSubmit Threw s) = requestItems s
       \<and> selectedStore (handleSubmit Threw s) = selectedStore s
       \<and> isSubmitting (handleSubmit Threw s) = False"
  using assms
  by (simp add: handleSubmit_def validation_passes_def submit_begin_def submit_send_def
      submit_settle_def)

theorem submit_transport_error_witness:
  "selectedStore ready \<noteq> [] \<and> requestItems ready \<noteq> []
   \<and> status (handleSubmit Threw ready) = mk_status error msg_network
   \<and> requestItems (handleSubmit Threw ready) = requestItems ready
   \<and> selectedStore (handleSubmit Threw ready) = selectedStore ready
   \<and> isSubmitting (handleSubmit Threw ready) = False"
  using submit_transport_error [OF ready_selected ready_items] ready_selected ready_items
  by simp

text \<open>
  C3. From a state with a store selected and a non-empty request list, when the fetch
  resolves, \<open>handleSubmit\<close> ends with the success status, an empty request list, no store
  selected, \<open>isSubmitting\<close> cleared, and one more timer, of 5000 ms, whose firing sets the
  status back to idle with an empty message.
\<close>

theorem submit_success:
  assumes "selectedStore s \<noteq> []" and "requestItems s \<noteq> []"
  shows "status (handleSubmit Resolved s) = mk_status success msg_success
       \<and> requestItems (handleSubmit Resolved s) = []
       \<and> selectedStore (handleSubmit Resolved s) = []
       \<and> isSubmitting (handleSubmit Resolved s) = False
       \<and> timers (handleSubmit Resolved s) = timers s @ [\<lparr>delay = 5000, sets = idle_status\<rparr>]
       \<and> status (dispatch (TimerFired (length (timers s))) (handleSubmit Resolved s)) = idle_status"
  using assms
  by (simp add: handleSubmit_def validation_passes_def submit_begin_def submit_send_def
      submit_settle_def setTimeout_def nth_append)

theorem submit_success_witness:
  "selectedStore ready \<noteq> [] \<and> requestItems ready \<noteq> []
   \<and> status (handleSubmit Resolved ready) = mk_status success msg_success
   \<and> requestItems (handleSubmit Resolved ready) = []
   \<and> selectedStore (handleSubmit Resolved ready) = []
   \<and> isSubmitting (handleSubmit Resolved ready) = False
   \<and> timers (handleSubmit Resolved ready) = timers ready @ [\<lparr>delay = 5000, sets = idle_status\<rparr>]"
  using submit_success [OF ready_selected ready_items] ready_selected ready_items
  by simp

text \<open>
  C4. \<open>handleSubmit\<close> checks first that a store is selected, then that the request list is
  not empty. Where the first check fails the state changes in its status only, which becomes
  the error naming the store, whatever the list holds; where the second fails, in its status
  only, which becomes the error naming the items. In both cases no POST is issued and the
  request list, the selected store and \<open>isSubmitting\<close> stay as they were.
\<close>

theorem submit_validation:
  "(selectedStore s = [] \<longrightarrow>
      handleSubmit outcome s = s\<lparr>status := mk_status error msg_no_store\<rparr>)
   \<and> (selectedStore s \<noteq> [] \<and> requestItems s = [] \<longrightarrow>
      handleSubmit outcome s = s\<lparr>status := mk_status error msg_no_items\<rparr>)
   \<and> (\<not> validation_passes s \<longrightarrow>
      type (status (handleSubmit outcome s)) = error
      \<and> posted (handleSubmit outcome s) = posted s
      \<and> in_flight (handleSubmit outcome s) = in_flight s
      \<and> requestItems (handleSubmit outcome s) = requestItems s
      \<and> selectedStore (handleSubmit outcome s) = selectedStore s
      \<and> isSubmitting (handleSubmit outcome s) = isSubmitting s)"
  by (simp add: handleSubmit_def validation_passes_def submit_begin_def mk_status_def)

theorem submit_validation_witness:
  "selectedStore mounted = [] \<and> requestItems mounted = []
   \<and> handleSubmit Resolved mounted = mounted\<lparr>status := mk_status error msg_no_store\<rparr>
   \<and> posted (handleSubmit Resolved mounted) = []
   \<and> selectedStore store_chosen \<noteq> [] \<and> requestItems store_chosen = []
   \<and> handleSubmit Resolved store_chosen = store_chosen\<lparr>status := mk_status error msg_no_items\<rparr>
   \<and> posted (handleSubmit Resolved store_chosen) = posted store_chosen"
  using submit_validation [of mounted Resolved] submit_validation [of store_chosen Resolved]
    mounted_no_store store_chosen_selected store_chosen_no_items
  by (simp add: validation_passes_def mounted_def initial_def)

text \<open>
  C8. When both checks pass, \<open>handleSubmit\<close> issues exactly one POST. Its payload carries
  the selected store token and one entry per line item, in list order, each made of the
  item's code, its description, its qty converted to a string, and its reason.
\<close>

theorem submit_payload:
  assumes "selectedStore s \<noteq> []" and "requestItems s \<noteq> []"
  shows "\<exists>pl. posted (handleSubmit outcome s) = posted s @ [pl]
       \<and> store_token pl = selectedStore s
       \<and> length (items pl) = length (requestItems s)
       \<and> (\<forall>k < length (requestItems s).
            procode (items pl ! k) = code (requestItems s ! k)
          \<and> prodesc (items pl ! k) = desc (requestItems s ! k)
          \<and> qty_str (items pl ! k) = String_num (qty (requestItems s ! k))
          \<and> reason_str (items pl ! k) = reason (requestItems s ! k))"
  using assms
  by (cases outcome)
     (simp_all add: handleSubmit_def validation_passes_def submit_begin_def submit_send_def
      submit_settle_def setTimeout_def payload_of_def)

theorem submit_payload_witness:
  "selectedStore ready \<noteq> [] \<and> requestItems ready \<noteq> []
   \<and> (\<exists>pl. posted (handleSubmit Resolved ready) = posted ready @ [pl]
       \<and> store_token pl = selectedStore ready
       \<and> length (items pl) = length (requestItems ready)
       \<and> (\<forall>k < length (requestItems ready).
            procode (items pl ! k) = code (requestItems ready ! k)
          \<and> prodesc (items pl ! k) = desc (requestItems ready ! k)
          \<and> qty_str (items pl ! k) = String_num (qty (requestItems ready ! k))
          \<and> reason_str (items pl ! k) = reason (requestItems ready ! k)))"
  using submit_payload [OF ready_selected ready_items, of Resolved] ready_selected ready_items
  by simp

section \<open>Search\<close>




text \<open>
  \<open>ci_contains\<close> says what its name says: some run of consecutive characters of \<open>s\<close> is
  \<open>q\<close>, letter for letter up to case.
\<close>

lemma ci_startsWith_iff:
  "ci_startsWith s q \<longleftrightarrow> (\<exists>t post. s = t @ post \<and> list_all2 same_letter t q)"
proof (induction s q rule: ci_startsWith.induct)
  case (1 s)
  then show ?case by simp
next
  case (2 c q)
  then show ?case by (simp add: list_all2_Cons2)
next
  case (3 d s c q)
  show ?case
  proof
    assume "ci_startsWith (d # s) (c # q)"
    then obtain t post where "same_letter d c" "s = t @ post" "list_all2 same_letter t q"
      using 3 by auto
    then have "d # s = (d # t) @ post \<and> list_all2 same_letter (d # t) (c # q)" by simp
    then show "\<exists>t post. d # s = t @ post \<and> list_all2 same_letter t (c # q)" by blast
  next
    assume "\<exists>t post. d # s = t @ post \<and> list_all2 same_letter t (c # q)"
    then obtain t post where *: "d # s = t @ post" "list_all2 same_letter t (c # q)" by blast
    then obtain t' where "t = d # t'" "same_letter d c" "list_all2 same_letter t' q" "s = t' @ post"
      by (cases t) auto
    then show "ci_startsWith (d # s) (c # q)" using 3 by auto
  qed
qed

lemma ci_contains_iff:
  "ci_contains s q \<longleftrightarrow> (\<exists>pre t post. s = pre @ t @ post \<and> list_all2 same_letter t q)"
proof (induction s)
  case Nil
  then show ?case by auto
next
  case (Cons d s)
  show ?case
  proof
    assume "ci_contains (d # s) q"
    then consider "ci_startsWith (d # s) q" | "ci_contains s q" by auto
    then show "\<exists>pre t post. d # s = pre @ t @ post \<and> list_all2 same_letter t q"
    proof cases
      case 1
      then obtain t post where "d # s = [] @ t @ post" "list_all2 same_letter t q"
        by (auto simp add: ci_startsWith_iff)
      then show ?thesis by blast
    next
      case 2
      then obtain pre t post where "s = pre @ t @ post" "list_all2 same_letter t q"
        using Cons by blast
      then have "d # s = (d # pre) @ t @ post \<and> list_all2 same_letter t q" by simp
      then show ?thesis by blast
    qed
  next
    assume "\<exists>pre t post. d # s = pre @ t @ post \<and> list_all2 same_letter t q"
    then obtain pre t post where *: "d # s = pre @ t @ post" "list_all2 same_letter t q" by blast
    show "ci_contains (d # s) q"
    proof (cases pre)
      case Nil
      then have "ci_startsWith (d # s) q" using * by (auto simp add: ci_startsWith_iff)
      then show ?thesis by simp
    next
      case (Cons a pre')
      then have "s = pre' @ t @ post" using * by simp
      then have "ci_contains s q" using *(2) Cons.IH by blast
      then show ?thesis by simp
    qed
  qed
qed


lemma folds_ascii_sigma_runtime: "folds_ascii sigma_runtime"
proof -
  have "\<not> ascii (CHR ''A'' # capital_sigma)" and "\<not> ascii capital_sigma"
    by (simp_all add: ascii_def capital_sigma_def)
  then show ?thesis
    by (auto simp add: folds_ascii_def sigma_runtime_def sigma_toLowerCase_def)
qed






section \<open>The submission guard\<close>

lemma guard_inv_mounted: "guard_inv mounted"
  by (simp add: guard_inv_def mounted_def initial_def)

lemma guard_inv_dispatch: "guard_inv s \<Longrightarrow> guard_inv (dispatch e s)"
proof (cases e)
  case ClickSubmit
  assume "guard_inv s"
  then show ?thesis using ClickSubmit
    by (auto simp add: guard_inv_def submit_disabled_def submit_begin_def submit_send_def)
next
  case (FetchSettled outcome)
  assume "guard_inv s"
  then show ?thesis using FetchSettled
    by (cases outcome; cases "in_flight s")
       (auto simp add: guard_inv_def submit_settle_def setTimeout_def)
next
  case (ClickProduct p now)
  assume "guard_inv s"
  then show ?thesis using ClickProduct
    by (simp add: guard_inv_def handleAddItem_def setTimeout_def)
qed (simp_all add: guard_inv_def qty_onChange_def reason_onChange_def handleItemChange_def
      handleDeleteItem_def)

lemma guard_inv_step: "guard_inv s \<Longrightarrow> guard_inv (step rt e s)"
proof -
  assume "guard_inv s"
  then have "guard_inv (dispatch e s)" by (rule guard_inv_dispatch)
  then show ?thesis by (simp add: step_def Let_def filter_effect_def guard_inv_def)
qed

lemma guard_inv_run: "guard_inv s \<Longrightarrow> guard_inv (run rt es s)"
  by (induction es arbitrary: s) (simp_all add: guard_inv_step)

lemma step_ClickSubmit_disabled: "isSubmitting s \<Longrightarrow> step rt ClickSubmit s = s"
  by (simp add: step_def submit_disabled_def)

text \<open>
  C6. In every state the mounted component reaches, whatever the events, at most one POST
  is in flight, \<open>isSubmitting\<close> is set exactly while one is, and while it is set a click on
  the submit button does nothing: the button is disabled. The guard is the button's
  \<open>disabled\<close> attribute; \<open>handleSubmit\<close> itself does not read the flag.
\<close>

theorem one_submission_in_flight:
  "length (in_flight (run rt es mounted)) \<le> 1
   \<and> (isSubmitting (run rt es mounted) \<longleftrightarrow> in_flight (run rt es mounted) \<noteq> [])
   \<and> (isSubmitting (run rt es mounted) \<longrightarrow>
        step rt ClickSubmit (run rt es mounted) = run rt es mounted)"
  using guard_inv_run [OF guard_inv_mounted, of rt es]
  by (simp add: guard_inv_def step_ClickSubmit_disabled)

theorem one_submission_in_flight_witness:
  "isSubmitting sending
   \<and> length (in_flight sending) \<le> 1
   \<and> in_flight sending \<noteq> []
   \<and> step ascii_runtime ClickSubmit sending = sending"
  using one_submission_in_flight [of ascii_runtime "scenario @ [ClickSubmit]"] sending_isSubmitting
  by (simp add: sending_def)

section \<open>The request list\<close>

lemma count_code_distinct:
  "distinct (map code its) \<Longrightarrow> has_code c its \<Longrightarrow>
   length (filter (\<lambda>item. code item = c) its) = 1"
proof (induction its)
  case Nil
  then show ?case by (simp add: has_code_def)
next
  case (Cons a its)
  show ?case
  proof (cases "code a = c")
    case True
    then have "c \<notin> code ` set its" using Cons.prems(1) by auto
    then have "filter (\<lambda>item. code item = c) its = []" by (auto simp add: filter_empty_conv)
    then show ?thesis using True by simp
  next
    case False
    then show ?thesis using Cons by (simp add: has_code_def)
  qed
qed

lemma count_code_absent:
  "\<not> has_code c its \<Longrightarrow> filter (\<lambda>item. code item = c) its = []"
  by (auto simp add: has_code_def list_ex_iff filter_empty_conv)

text \<open>
  The invariant of the request list, no two line items with the same product code, holds
  in every state the mounted component reaches.
\<close>

lemma distinct_codes_dispatch:
  "distinct (map code (requestItems s)) \<Longrightarrow> distinct (map code (requestItems (dispatch e s)))"
proof (cases e)
  case (ClickProduct p now)
  assume "distinct (map code (requestItems s))"
  then show ?thesis using ClickProduct
    by (auto simp add: handleAddItem_def setTimeout_def has_code_def list_ex_iff newItem_def)
next
  case (ChangeQty i v)
  have "map code (requestItems (qty_onChange i v s)) = map code (requestItems s)"
    by (simp add: qty_onChange_def handleItemChange_def comp_def)
  moreover assume "distinct (map code (requestItems s))"
  ultimately show ?thesis using ChangeQty by simp
next
  case (ChangeReason i v)
  have "map code (requestItems (reason_onChange i v s)) = map code (requestItems s)"
    by (simp add: reason_onChange_def handleItemChange_def comp_def)
  moreover assume "distinct (map code (requestItems s))"
  ultimately show ?thesis using ChangeReason by simp
next
  case (ClickDelete i)
  assume "distinct (map code (requestItems s))"
  then show ?thesis using ClickDelete by (simp add: handleDeleteItem_def distinct_map_filter)
next
  case ClickSubmit
  assume "distinct (map code (requestItems s))"
  then show ?thesis using ClickSubmit by (simp add: submit_begin_def submit_send_def)
next
  case (FetchSettled outcome)
  assume "distinct (map code (requestItems s))"
  then show ?thesis using FetchSettled
    by (cases outcome) (simp_all add: submit_settle_def setTimeout_def)
qed simp_all

lemma distinct_codes_run:
  "distinct (map code (requestItems s)) \<Longrightarrow> distinct (map code (requestItems (run rt es s)))"
proof (induction es arbitrary: s)
  case Nil
  then show ?case by simp
next
  case (Cons e es)
  have "requestItems (step rt e s) = requestItems (dispatch e s)"
    by (simp add: step_def Let_def filter_effect_def)
  then have "distinct (map code (requestItems (step rt e s)))"
    using Cons.prems distinct_codes_dispatch by simp
  then show ?case using Cons.IH by simp
qed

lemma distinct_codes_reachable: "distinct (map code (requestItems (run rt es mounted)))"
  by (rule distinct_codes_run) (simp add: mounted_def initial_def)

text \<open>
  C9. On every request list (no two of whose items share a product code, as the data model
  has it), after two calls of \<open>handleAddItem\<close> with products of the same code exactly one
  line item bears that code; the second call leaves the list as the first left it, and
  changes the state only by the informational status and the 3000 ms timer that clears it.
\<close>

theorem add_twice_same_code:
  assumes "code p2 = code p1" and "distinct (map code (requestItems s))"
  shows "length (filter (\<lambda>item. code item = code p1)
                   (requestItems (handleAddItem p2 t2 (handleAddItem p1 t1 s)))) = 1
       \<and> requestItems (handleAddItem p2 t2 (handleAddItem p1 t1 s))
           = requestItems (handleAddItem p1 t1 s)
       \<and> handleAddItem p2 t2 (handleAddItem p1 t1 s)
           = setTimeout idle_status 3000
               ((handleAddItem p1 t1 s)\<lparr>status := mk_status info ''Produk sudah ada di daftar.''\<rparr>)"
proof (cases "has_code (code p1) (requestItems s)")
  case True
  then have "length (filter (\<lambda>item. code item = code p1) (requestItems s)) = 1"
    using assms(2) by (simp add: count_code_distinct)
  then show ?thesis using True assms(1)
    by (simp add: handleAddItem_def setTimeout_def has_code_def)
next
  case False
  then have "filter (\<lambda>item. code item = code p1) (requestItems s) = []"
    by (rule count_code_absent)
  then show ?thesis using False assms(1)
    by (simp add: handleAddItem_def setTimeout_def has_code_def newItem_def)
qed

theorem add_twice_same_code_witness:
  "code P1 = code P1 \<and> distinct (map code (requestItems mounted))
   \<and> length (filter (\<lambda>item. code item = code P1)
               (requestItems (handleAddItem P1 2000 (handleAddItem P1 1000 mounted)))) = 1
   \<and> requestItems (handleAddItem P1 2000 (handleAddItem P1 1000 mounted)) = [newItem P1 1000]"
proof -
  have d: "distinct (map code (requestItems mounted))" by (simp add: mounted_def initial_def)
  have l: "requestItems (handleAddItem P1 1000 mounted) = [newItem P1 1000]"
    by (simp add: handleAddItem_def has_code_def mounted_def initial_def)
  have t: "length (filter (\<lambda>item. code item = code P1)
               (requestItems (handleAddItem P1 2000 (handleAddItem P1 1000 mounted)))) = 1
       \<and> requestItems (handleAddItem P1 2000 (handleAddItem P1 1000 mounted))
           = requestItems (handleAddItem P1 1000 mounted)"
    using add_twice_same_code [OF refl d, of P1 2000 1000] by blast
  show ?thesis using t d l by (simp add: newItem_def)
qed

text \<open>
  C10. When \<open>handleAddItem\<close> rejects a product whose code is already in the list, the
  search term and the displayed results stay as they were, also after the render that
  follows the click; an accepted add clears both.
\<close>

theorem add_rejected_keeps_search:
  "(has_code (code p) (requestItems s) \<longrightarrow>
      searchTerm (handleAddItem p now s) = searchTerm s
      \<and> filteredProducts (handleAddItem p now s) = filteredProducts s
      \<and> searchTerm (step rt (ClickProduct p now) s) = searchTerm s
      \<and> filteredProducts (step rt (ClickProduct p now) s) = filteredProducts s)
   \<and> (\<not> has_code (code p) (requestItems s) \<longrightarrow>
      searchTerm (handleAddItem p now s) = []
      \<and> filteredProducts (handleAddItem p now s) = [])"
  by (simp add: handleAddItem_def setTimeout_def step_def)

lemma searching_again_state:
  "has_code (code P1) (requestItems searching_again)
   \<and> searchTerm searching_again = ''wid'' \<and> filteredProducts searching_again = [P1]"
  unfolding searching_again_def by code_simp

lemma mounted_has_no_code: "\<not> has_code (code P1) (requestItems mounted)"
  by (simp add: has_code_def mounted_def initial_def)

theorem add_rejected_keeps_search_witness:
  "has_code (code P1) (requestItems searching_again)
   \<and> searchTerm (handleAddItem P1 2000 searching_again) = ''wid''
   \<and> filteredProducts (handleAddItem P1 2000 searching_again) = [P1]
   \<and> \<not> has_code (code P1) (requestItems mounted)
   \<and> searchTerm (handleAddItem P1 2000 mounted) = []
   \<and> filteredProducts (handleAddItem P1 2000 mounted) = []"
  using add_rejected_keeps_search [of P1 searching_again 2000]
    add_rejected_keeps_search [of P1 mounted 2000]
    searching_again_state mounted_has_no_code
  by simp

section \<open>Identifiers of line items\<close>

lemma digit_char_of_char: "(of_char (digit_char n) :: nat) = 48 + n mod 10"
proof -
  have "48 + n mod 10 < 256" using mod_less_divisor[of 10 n] by linarith
  then show ?thesis by simp
qed

lemma radixDigit_digit_char: "radixDigit 10 (digit_char n) = Some (n mod 10)"
  unfolding radixDigit_def digitValue_def Let_def digit_char_of_char by simp

lemma digitsValue_snoc:
  "digitsValue R (Z @ [c]) = digitsValue R Z * R + (case radixDigit R c of None \<Rightarrow> 0 | Some d \<Rightarrow> d)"
  by (simp add: digitsValue_def)

text \<open>Reading back the decimal numeral of a number gives the number.\<close>

lemma digitsValue_dec: "digitsValue 10 (dec n) = n"
proof (induction n rule: dec.induct)
  case (1 n)
  show ?case
  proof (cases "n < 10")
    case True
    then show ?thesis
      using digitsValue_snoc[of 10 "[]" "digit_char n"]
      by (simp add: dec.simps[of n] radixDigit_digit_char digitsValue_def del: digit_char.simps)
  next
    case False
    then have "digitsValue 10 (dec (n div 10)) = n div 10" using 1 by simp
    then show ?thesis using False
      by (simp add: dec.simps[of n] digitsValue_snoc radixDigit_digit_char del: digit_char.simps)
  qed
qed

lemma dec_inject: "dec m = dec n \<Longrightarrow> m = n"
  by (metis digitsValue_dec)

lemma digit_char_not_hyphen: "digit_char n \<noteq> CHR ''-''"
proof
  assume "digit_char n = CHR ''-''"
  then have "(of_char (digit_char n) :: nat) = of_char CHR ''-''" by simp
  then show False unfolding digit_char_of_char by simp
qed

lemma hyphen_notin_dec: "CHR ''-'' \<notin> set (dec n)"
proof (induction n rule: dec.induct)
  case (1 n)
  show ?case
  proof (cases "n < 10")
    case True
    then show ?thesis using digit_char_not_hyphen[of n]
      by (simp add: dec.simps[of n] del: digit_char.simps)
  next
    case False
    then show ?thesis using 1 digit_char_not_hyphen[of n]
      by (simp add: dec.simps[of n] del: digit_char.simps)
  qed
qed

lemma split_at_last_hyphen:
  assumes "c @ CHR ''-'' # d = c' @ CHR ''-'' # d'"
    and "CHR ''-'' \<notin> set d" and "CHR ''-'' \<notin> set d'"
  shows "c = c' \<and> d = d'"
proof -
  have tw: "\<And>c d. CHR ''-'' \<notin> set d \<Longrightarrow>
      takeWhile (\<lambda>x. x \<noteq> CHR ''-'') (rev (c @ CHR ''-'' # d)) = rev d"
    by (auto simp add: takeWhile_tail)
  have "rev d = rev d'" using tw[OF assms(2), of c] tw[OF assms(3), of c'] assms(1) by simp
  then have "d = d'" by simp
  then show ?thesis using assms(1) by simp
qed

text \<open>An identifier determines the product code and the clock reading it was made from.\<close>

lemma id_of_key_inject: "id_of_key k = id_of_key k' \<Longrightarrow> k = k'"
  unfolding id_of_key_def
  using split_at_last_hyphen[of "fst k" "dec (snd k)" "fst k'" "dec (snd k')"]
    hyphen_notin_dec dec_inject
  by (metis prod.collapse)

lemma new_id_key: "new_id p now = id_of_key (code p, now)"
  by (simp add: new_id_def id_of_key_def)

lemma generated_subset: "set (generated ops s) \<subseteq> id_of_key ` set (add_keys ops)"
proof (induction ops s rule: generated.induct)
  case (1 s)
  then show ?case by simp
next
  case (2 p now ops s)
  then show ?case using new_id_key[of p now] by auto
next
  case (3 i ops s)
  then show ?case by auto
qed

text \<open>
  Whatever the clock, the identifiers of the line items that are in the list at one time are
  pairwise distinct: each is made from the code of its item, and the codes are distinct.
\<close>

lemma keyed_dispatch:
  assumes "\<forall>item \<in> set (requestItems s). \<exists>t. id' item = id_of_key (code item, t)"
  shows "\<forall>item \<in> set (requestItems (dispatch e s)). \<exists>t. id' item = id_of_key (code item, t)"
proof (cases e)
  case (ClickProduct p now)
  have "id' (newItem p now) = id_of_key (code (newItem p now), now)"
    by (simp add: newItem_def new_id_key)
  then show ?thesis using assms ClickProduct
    by (auto simp add: handleAddItem_def setTimeout_def)
next
  case (ChangeQty i v)
  then show ?thesis using assms
    by (auto simp add: qty_onChange_def handleItemChange_def)
next
  case (ChangeReason i v)
  then show ?thesis using assms
    by (auto simp add: reason_onChange_def handleItemChange_def)
next
  case (ClickDelete i)
  then show ?thesis using assms by (simp add: handleDeleteItem_def)
next
  case ClickSubmit
  then show ?thesis using assms by (simp add: submit_begin_def submit_send_def)
next
  case (FetchSettled outcome)
  then show ?thesis using assms
    by (cases outcome) (simp_all add: submit_settle_def setTimeout_def)
qed (use assms in simp_all)

lemma keyed_run:
  "\<forall>item \<in> set (requestItems s). \<exists>t. id' item = id_of_key (code item, t) \<Longrightarrow>
   \<forall>item \<in> set (requestItems (run rt es s)). \<exists>t. id' item = id_of_key (code item, t)"
proof (induction es arbitrary: s)
  case Nil
  then show ?case by simp
next
  case (Cons e es)
  have "requestItems (step rt e s) = requestItems (dispatch e s)"
    by (simp add: step_def Let_def filter_effect_def)
  then have "\<forall>item \<in> set (requestItems (step rt e s)). \<exists>t. id' item = id_of_key (code item, t)"
    using keyed_dispatch[OF Cons.prems, of e] by simp
  then show ?case using Cons.IH by simp
qed

lemma ids_in_list_distinct: "distinct (map id' (requestItems (run rt es mounted)))"
proof -
  let ?xs = "requestItems (run rt es mounted)"
  have k: "\<forall>item \<in> set ?xs. \<exists>t. id' item = id_of_key (code item, t)"
    by (rule keyed_run) (simp add: mounted_def initial_def)
  have d: "distinct (map code ?xs)" by (rule distinct_codes_reachable)
  have "inj_on id' (set ?xs)"
  proof (rule inj_onI)
    fix a b assume a: "a \<in> set ?xs" and b: "b \<in> set ?xs" and e: "id' a = id' b"
    obtain ta tb where "id' a = id_of_key (code a, ta)" "id' b = id_of_key (code b, tb)"
      using k a b by blast
    then have "code a = code b" using e id_of_key_inject by (metis fst_conv)
    then show "a = b" using d a b by (meson distinct_map inj_onD)
  qed
  moreover have "distinct ?xs" using d by (simp add: distinct_map)
  ultimately show ?thesis by (simp add: distinct_map)
qed

text \<open>
  C7, as stated: over every sequence of adds and removes the generated identifiers are
  pairwise distinct. It fails when an item is removed and its product added again at the
  clock reading of the first add: the same identifier is generated twice.
\<close>

theorem readd_same_clock_repeats_id:
  "\<not> distinct (generated [Add P1 1000, Remove ''P1-1000'', Add P1 1000] mounted)"
  by code_simp

text \<open>
  C7, amended. Over every sequence of adds and removes in which no two adds carry both the
  same product code and the same clock reading, the identifiers generated are pairwise
  distinct, from any starting state.
\<close>

theorem generated_ids_distinct:
  "distinct (add_keys ops) \<Longrightarrow> distinct (generated ops s)"
proof (induction ops s rule: generated.induct)
  case (1 s)
  then show ?case by simp
next
  case (2 p now ops s)
  have rest: "distinct (generated ops (apply_op (Add p now) s))" using 2 by simp
  have "new_id p now \<notin> set (generated ops (apply_op (Add p now) s))"
  proof
    assume "new_id p now \<in> set (generated ops (apply_op (Add p now) s))"
    then obtain k where k: "k \<in> set (add_keys ops)" "new_id p now = id_of_key k"
      using generated_subset by blast
    then have "k = (code p, now)" using new_id_key[of p now] id_of_key_inject by metis
    then show False using k(1) "2.prems" by simp
  qed
  then show ?case using rest by simp
next
  case (3 i ops s)
  then show ?case by simp
qed

lemma keys_example: "distinct (add_keys [Add P1 1000, Remove ''P1-1000'', Add P1 1001])"
  by code_simp

theorem generated_ids_distinct_witness:
  "distinct (add_keys [Add P1 1000, Remove ''P1-1000'', Add P1 1001])
   \<and> distinct (generated [Add P1 1000, Remove ''P1-1000'', Add P1 1001] mounted)"
  using generated_ids_distinct [OF keys_example, of mounted] keys_example by simp

end
